theory Spec2Isabelle
  imports Main
begin

section \<open>ArrowSelection: the cyclic menu cursor\<close>

text \<open>
  The class \<^verbatim>\<open>ArrowSelection\<close> keeps an array of items and a numeric index. The two
  callbacks of its configuration are code of the host: the model records which callback a
  method invokes and takes what the callback does (return normally, or throw) as a
  parameter. The optional \<^verbatim>\<open>action\<close> field of an item is only ever used inside the
  host's \<^verbatim>\<open>onSelect\<close> callback and is left out of the item record.
\<close>

record SelectableItem =
  item_id :: string
  name :: string
  description :: "string option"

datatype callback = OnSelect SelectableItem | OnExit

text \<open>
  A callback's outcome is \<open>None\<close> when it returns and \<open>Some e\<close> when it throws \<open>e\<close>.
  \<open>onExit\<close> is optional: \<open>None\<close> when the configuration gave none.
\<close>

record 'e ArrowSelection =
  items :: "SelectableItem list"
  currentIndex :: int
  onSelect :: "SelectableItem \<Rightarrow> 'e option"
  onExit :: "'e option option"
  title :: string
  instructions :: string

record 'e ArrowSelectionConfig =
  cfg_items :: "SelectableItem list"
  cfg_onSelect :: "SelectableItem \<Rightarrow> 'e option"
  cfg_onExit :: "'e option option"
  cfg_title :: string
  cfg_instructions :: string

text \<open>
  Reading \<^verbatim>\<open>arr[i]\<close> in JavaScript never throws: an index that is not an own property
  of the array (negative, or at least the length) reads as \<^verbatim>\<open>undefined\<close>, here \<open>None\<close>.
\<close>

definition js_index :: "'a list \<Rightarrow> int \<Rightarrow> 'a option" where
  "js_index xs i = (if 0 \<le> i \<and> i < int (length xs) then Some (xs ! nat i) else None)"

definition constructor :: "'e ArrowSelectionConfig \<Rightarrow> 'e ArrowSelection" where
  "constructor config =
     \<lparr> items = cfg_items config, currentIndex = 0, onSelect = cfg_onSelect config,
       onExit = cfg_onExit config, title = cfg_title config,
       instructions = cfg_instructions config \<rparr>"

definition getCurrentIndex :: "'e ArrowSelection \<Rightarrow> int" where
  "getCurrentIndex m = currentIndex m"

definition getCurrentItem :: "'e ArrowSelection \<Rightarrow> SelectableItem option" where
  "getCurrentItem m = js_index (items m) (currentIndex m)"

definition moveUp :: "'e ArrowSelection \<Rightarrow> 'e ArrowSelection" where
  "moveUp m =
     m\<lparr>currentIndex :=
         (if currentIndex m > 0 then currentIndex m - 1 else int (length (items m)) - 1)\<rparr>"

definition moveDown :: "'e ArrowSelection \<Rightarrow> 'e ArrowSelection" where
  "moveDown m =
     m\<lparr>currentIndex :=
         (if currentIndex m < int (length (items m)) - 1 then currentIndex m + 1 else 0)\<rparr>"

text \<open>
  A method with a callback returns the callbacks it invoked, in order, the error that
  escaped it (if a callback threw), and the menu state after the call. An item is an
  object and so truthy: the test \<^verbatim>\<open>if (this.items[this.currentIndex])\<close> asks whether
  the read found an item.
\<close>

definition select :: "'e ArrowSelection \<Rightarrow> callback list \<times> 'e option \<times> 'e ArrowSelection" where
  "select m =
     (case js_index (items m) (currentIndex m) of
        Some item \<Rightarrow> ([OnSelect item], onSelect m item, m)
      | None \<Rightarrow> ([], None, m))"

definition exit_menu :: "'e ArrowSelection \<Rightarrow> callback list \<times> 'e option \<times> 'e ArrowSelection" where
  "exit_menu m =
     (case onExit m of
        Some outcome \<Rightarrow> ([OnExit], outcome, m)
      | None \<Rightarrow> ([], None, m))"

definition addItem :: "SelectableItem \<Rightarrow> 'e ArrowSelection \<Rightarrow> 'e ArrowSelection" where
  "addItem item m = m\<lparr>items := items m @ [item]\<rparr>"

definition removeItem :: "string \<Rightarrow> 'e ArrowSelection \<Rightarrow> 'e ArrowSelection" where
  "removeItem i m =
     (let m1 = m\<lparr>items := filter (\<lambda>item. item_id item \<noteq> i) (items m)\<rparr>
      in if currentIndex m1 \<ge> int (length (items m1))
         then m1\<lparr>currentIndex := max 0 (int (length (items m1)) - 1)\<rparr>
         else m1)"

text \<open>The invariant of the data model: the cursor is a position of the list.\<close>

definition cursor_in_range :: "'e ArrowSelection \<Rightarrow> bool" where
  "cursor_in_range m \<longleftrightarrow> 0 \<le> currentIndex m \<and> currentIndex m < int (length (items m))"

definition snake_item :: SelectableItem where
  "snake_item = \<lparr> item_id = ''snake'', name = ''Snake'',
                   description = Some ''Classic Snake Game'' \<rparr>"

definition menu_of :: "SelectableItem list \<Rightarrow> unit ArrowSelection" where
  "menu_of xs =
     constructor \<lparr> cfg_items = xs, cfg_onSelect = (\<lambda>_. None), cfg_onExit = None,
                   cfg_title = ''Games'', cfg_instructions = ''Use Arrow Keys'' \<rparr>"

section \<open>SnakeGame: the simulation\<close>

text \<open>
  The component keeps its simulation in the closure of one effect: the object
  \<^verbatim>\<open>snake\<close>, the object \<^verbatim>\<open>apple\<close>, the frame counter \<^verbatim>\<open>count\<close> and the React
  state \<^verbatim>\<open>score\<close>. The canvas is 400 by 400 (the attributes of the \<^verbatim>\<open>canvas\<close>
  element), that is 25 by 25 cells of 16. All coordinates are integral JavaScript
  numbers far below \<open>2^53\<close> and are modelled as \<open>int\<close>. Drawing does not change
  the simulation and is left out.
\<close>

definition grid :: int where
  "grid = 16"

definition canvas_width :: int where
  "canvas_width = 400"

definition canvas_height :: int where
  "canvas_height = 400"

type_synonym cell = "int \<times> int"

text \<open>
  \<open>draws\<close> counts the calls of \<^verbatim>\<open>Math.random()\<close> made so far and \<open>exits\<close> the
  calls of the host's \<^verbatim>\<open>onExit\<close>. \<open>score\<close> is the value of the React state after
  the queued updates (\<^verbatim>\<open>setScore(0)\<close>, \<^verbatim>\<open>setScore(prev => prev + 10)\<close>) have been
  applied in the order they were queued.
\<close>

record game =
  snake_x :: int
  snake_y :: int
  snake_dx :: int
  snake_dy :: int
  snake_cells :: "cell list"
  snake_maxCells :: int
  apple_x :: int
  apple_y :: int
  score :: int
  count :: int
  draws :: nat
  exits :: nat

definition initial_game :: game where
  "initial_game =
     \<lparr> snake_x = 160, snake_y = 160, snake_dx = grid, snake_dy = 0, snake_cells = [],
       snake_maxCells = 4, apple_x = 320, apple_y = 320, score = 0, count = 0,
       draws = 0, exits = 0 \<rparr>"

text \<open>
  JavaScript numbers are IEEE 754 doubles. A double is written here as a pair
  \<open>(m, e)\<close> of integers that stands for the number \<open>m * 2^e\<close>; every finite double is
  such a pair with \<open>\<bar>m\<bar> < 2^53\<close> and \<open>- 1074 \<le> e\<close>. The coordinates, the score and
  the counters of the game are integers far below \<open>2^53\<close>, on which the arithmetic of
  doubles is exact, and stay \<open>int\<close>; the one place where a double is rounded is the
  product \<^verbatim>\<open>Math.random() * (max - min)\<close>.
\<close>

type_synonym double = "int \<times> int"

text \<open>The number of binary digits of a positive integer.\<close>

function bits :: "int \<Rightarrow> nat" where
  "bits n = (if n \<le> 0 then 0 else Suc (bits (n div 2)))"
  by pat_completeness auto
termination
  by (relation "measure nat") auto

declare bits.simps [simp del]

text \<open>
  \<open>round_half_even p s\<close> is \<open>p / 2^s\<close> rounded to the nearest integer, a tie going to
  the even one: the rounding of IEEE 754 that JavaScript uses.
\<close>

definition round_half_even :: "int \<Rightarrow> nat \<Rightarrow> int" where
  "round_half_even p s =
     (let q = p div 2 ^ s; r = p mod 2 ^ s
      in if 2 * r > 2 ^ s \<or> (2 * r = 2 ^ s \<and> odd q) then q + 1 else q)"

text \<open>
  The product of a double and an integer, as the multiplication of doubles returns it:
  the exact product \<open>(m * n) * 2^e\<close>, kept as it is when \<open>m * n\<close> fits in 53 binary
  digits and otherwise rounded to 53 digits, the nearest double. (The exponent only
  grows, so the result is at or above the smallest exponent; the products of the game
  are below 25, far from overflow.)
\<close>

definition mul_double :: "double \<Rightarrow> int \<Rightarrow> double" where
  "mul_double d n =
     (let p = fst d * n; s = bits \<bar>p\<bar> - 53; q = round_half_even \<bar>p\<bar> s
      in (if p < 0 then - q else q, snd d + int s))"

text \<open>\<^verbatim>\<open>Math.floor\<close> of a double, which is exact.\<close>

definition floor_double :: "double \<Rightarrow> int" where
  "floor_double d =
     (if 0 \<le> snd d then fst d * 2 ^ nat (snd d) else fst d div 2 ^ nat (- snd d))"

text \<open>
  What \<^verbatim>\<open>Math.random()\<close> may return: a double that is at least 0 and less than 1.
\<close>

definition unit_double :: "double \<Rightarrow> bool" where
  "unit_double d \<longleftrightarrow>
     0 \<le> fst d \<and> fst d < 2 ^ 53 \<and> - 1074 \<le> snd d \<and> snd d < 0 \<and> fst d < 2 ^ nat (- snd d)"

text \<open>
  \<^verbatim>\<open>Math.random()\<close> is a parameter: \<open>rnd n\<close> is the double that the \<open>n\<close>-th call
  returns. \<^verbatim>\<open>getRandomInt(min, max)\<close> is
  \<^verbatim>\<open>Math.floor(Math.random() * (max - min)) + min\<close>; the game calls it with 0 and 25
  only.
\<close>

definition getRandomInt :: "(nat \<Rightarrow> double) \<Rightarrow> int \<Rightarrow> int \<Rightarrow> game \<Rightarrow> int \<times> game" where
  "getRandomInt rnd lo hi s =
     (floor_double (mul_double (rnd (draws s)) (hi - lo)) + lo, s\<lparr>draws := draws s + 1\<rparr>)"

definition resetGame :: "(nat \<Rightarrow> double) \<Rightarrow> game \<Rightarrow> game" where
  "resetGame rnd s =
     (let s1 = s\<lparr>snake_x := 160, snake_y := 160, snake_cells := [], snake_maxCells := 4,
                 snake_dx := grid, snake_dy := 0, score := 0\<rparr>;
          (i, s2) = getRandomInt rnd 0 25 s1;
          s3 = s2\<lparr>apple_x := i * grid\<rparr>;
          (j, s4) = getRandomInt rnd 0 25 s3
      in s4\<lparr>apple_y := j * grid\<rparr>)"

text \<open>The body of \<^verbatim>\<open>if (cell.x === apple.x && cell.y === apple.y)\<close>.\<close>

definition eatApple :: "(nat \<Rightarrow> double) \<Rightarrow> game \<Rightarrow> game" where
  "eatApple rnd s =
     (let s1 = s\<lparr>snake_maxCells := snake_maxCells s + 1, score := score s + 10\<rparr>;
          (i, s2) = getRandomInt rnd 0 25 s1;
          s3 = s2\<lparr>apple_x := i * grid\<rparr>;
          (j, s4) = getRandomInt rnd 0 25 s3
      in s4\<lparr>apple_y := j * grid\<rparr>)"

text \<open>
  The inner loop \<^verbatim>\<open>for (let i = index + 1; i < snake.cells.length; i++)\<close>. It reads
  \<^verbatim>\<open>snake.cells\<close> anew in every round, so after a \<^verbatim>\<open>resetGame()\<close>, which stores
  a new empty array, the test fails and the loop ends. The loop has no \<^verbatim>\<open>break\<close>.
\<close>

function collide :: "(nat \<Rightarrow> double) \<Rightarrow> cell \<Rightarrow> nat \<Rightarrow> game \<Rightarrow> game" where
  "collide rnd cell i s =
     (if i < length (snake_cells s)
      then collide rnd cell (i + 1)
             (if fst cell = fst (snake_cells s ! i) \<and> snd cell = snd (snake_cells s ! i)
              then resetGame rnd s else s)
      else s)"
  by pat_completeness auto
termination
proof (relation "measure (\<lambda>(rnd, cell, i, s). length (snake_cells s) - i)")
  show "wf (measure (\<lambda>(rnd, cell, i, s). length (snake_cells s) - i))"
    by (rule wf_measure)
next
  fix rnd :: "nat \<Rightarrow> double" and cell :: cell and i :: nat and s :: game
  assume less: "i < length (snake_cells s)"
  have "snake_cells (resetGame rnd s) = []"
    by (simp add: resetGame_def getRandomInt_def)
  with less show "((rnd, cell, i + 1,
        if fst cell = fst (snake_cells s ! i) \<and> snd cell = snd (snake_cells s ! i)
        then resetGame rnd s else s), rnd, cell, i, s)
      \<in> measure (\<lambda>(rnd, cell, i, s). length (snake_cells s) - i)"
    by auto
qed

declare collide.simps [simp del]

text \<open>
  \<^verbatim>\<open>snake.cells.forEach((cell, index) => ...)\<close> walks the array that \<^verbatim>\<open>snake.cells\<close>
  held when the call began: \<^verbatim>\<open>resetGame()\<close> assigns a new array to the field and
  leaves the old array, and the walk over it, as they are. The list argument is that
  array from \<open>index\<close> on.
\<close>

fun forEach_cells :: "(nat \<Rightarrow> double) \<Rightarrow> cell list \<Rightarrow> nat \<Rightarrow> game \<Rightarrow> game" where
  "forEach_cells rnd [] index s = s"
| "forEach_cells rnd (cell # rest) index s =
     forEach_cells rnd rest (index + 1)
       (collide rnd cell (index + 1)
          (if fst cell = apple_x s \<and> snd cell = apple_y s then eatApple rnd s else s))"

text \<open>
  The first half of a simulation step: move the head by the velocity, wrap each axis,
  \<^verbatim>\<open>unshift\<close> the new head, \<^verbatim>\<open>pop\<close> one cell if the array is longer than
  \<^verbatim>\<open>maxCells\<close>.
\<close>

definition advance :: "game \<Rightarrow> game" where
  "advance s =
     (let s1 = s\<lparr>snake_x := snake_x s + snake_dx s\<rparr>;
          s2 = s1\<lparr>snake_y := snake_y s1 + snake_dy s1\<rparr>;
          s3 = (if snake_x s2 < 0 then s2\<lparr>snake_x := canvas_width - grid\<rparr>
                else if snake_x s2 \<ge> canvas_width then s2\<lparr>snake_x := 0\<rparr>
                else s2);
          s4 = (if snake_y s3 < 0 then s3\<lparr>snake_y := canvas_height - grid\<rparr>
                else if snake_y s3 \<ge> canvas_height then s3\<lparr>snake_y := 0\<rparr>
                else s3);
          s5 = s4\<lparr>snake_cells := (snake_x s4, snake_y s4) # snake_cells s4\<rparr>
      in if int (length (snake_cells s5)) > snake_maxCells s5
         then s5\<lparr>snake_cells := butlast (snake_cells s5)\<rparr>
         else s5)"

text \<open>
  \<open>tick\<close> is the part of \<^verbatim>\<open>gameLoop\<close> that runs on every sixth frame;
  \<open>gameLoop\<close> is the frame callback with its counter.
\<close>

definition tick :: "(nat \<Rightarrow> double) \<Rightarrow> game \<Rightarrow> game" where
  "tick rnd s = (let s1 = advance s in forEach_cells rnd (snake_cells s1) 0 s1)"

definition gameLoop :: "(nat \<Rightarrow> double) \<Rightarrow> game \<Rightarrow> game" where
  "gameLoop rnd s =
     (let s1 = s\<lparr>count := count s + 1\<rparr>
      in if count s1 < 6 then s1 else tick rnd (s1\<lparr>count := 0\<rparr>))"

record KeyboardEvent =
  which :: int
  key :: string
  ctrlKey :: bool

definition handleKeyDown :: "(nat \<Rightarrow> double) \<Rightarrow> KeyboardEvent \<Rightarrow> game \<Rightarrow> game" where
  "handleKeyDown rnd e s =
     (if which e = 37 \<and> snake_dx s = 0 then s\<lparr>snake_dx := - grid, snake_dy := 0\<rparr>
      else if which e = 38 \<and> snake_dy s = 0 then s\<lparr>snake_dy := - grid, snake_dx := 0\<rparr>
      else if which e = 39 \<and> snake_dx s = 0 then s\<lparr>snake_dx := grid, snake_dy := 0\<rparr>
      else if which e = 40 \<and> snake_dy s = 0 then s\<lparr>snake_dy := grid, snake_dx := 0\<rparr>
      else if key e = ''r'' \<or> key e = ''R'' then resetGame rnd s
      else if key e = ''q'' \<or> key e = ''Q'' \<or> (ctrlKey e \<and> key e = ''c'')
           then s\<lparr>exits := exits s + 1\<rparr>
      else s)"

text \<open>
  What reaches the simulation from outside: a frame of the redraw clock or a key. A run
  handles a list of them in order, starting with the first.
\<close>

datatype event = Frame | KeyDown KeyboardEvent

fun step :: "(nat \<Rightarrow> double) \<Rightarrow> game \<Rightarrow> event \<Rightarrow> game" where
  "step rnd s Frame = gameLoop rnd s"
| "step rnd s (KeyDown e) = handleKeyDown rnd e s"

definition run :: "(nat \<Rightarrow> double) \<Rightarrow> event list \<Rightarrow> game \<Rightarrow> game" where
  "run rnd evs s = foldl (step rnd) s evs"

text \<open>
  The specification speaks of a direction; the code keeps the velocity \<open>(dx, dy)\<close>.
  \<open>direction_of\<close> reads a direction off the velocity, \<open>arrow_key\<close> is the key event
  a browser sends for an arrow key (with or without Ctrl held).
\<close>

datatype direction = Up | Down | Left | Right

fun velocity :: "direction \<Rightarrow> int \<times> int" where
  "velocity Left = (- grid, 0)"
| "velocity Up = (0, - grid)"
| "velocity Right = (grid, 0)"
| "velocity Down = (0, grid)"

definition direction_of :: "game \<Rightarrow> direction option" where
  "direction_of s =
     (if (snake_dx s, snake_dy s) = velocity Left then Some Left
      else if (snake_dx s, snake_dy s) = velocity Up then Some Up
      else if (snake_dx s, snake_dy s) = velocity Right then Some Right
      else if (snake_dx s, snake_dy s) = velocity Down then Some Down
      else None)"

fun horizontal :: "direction \<Rightarrow> bool" where
  "horizontal Left = True"
| "horizontal Right = True"
| "horizontal Up = False"
| "horizontal Down = False"

definition perpendicular :: "direction \<Rightarrow> direction \<Rightarrow> bool" where
  "perpendicular a b \<longleftrightarrow> horizontal a \<noteq> horizontal b"

fun arrow_key :: "direction \<Rightarrow> bool \<Rightarrow> KeyboardEvent" where
  "arrow_key Left ctrl = \<lparr> which = 37, key = ''ArrowLeft'', ctrlKey = ctrl \<rparr>"
| "arrow_key Up ctrl = \<lparr> which = 38, key = ''ArrowUp'', ctrlKey = ctrl \<rparr>"
| "arrow_key Right ctrl = \<lparr> which = 39, key = ''ArrowRight'', ctrlKey = ctrl \<rparr>"
| "arrow_key Down ctrl = \<lparr> which = 40, key = ''ArrowDown'', ctrlKey = ctrl \<rparr>"

definition restart_key :: KeyboardEvent where
  "restart_key = \<lparr> which = 82, key = ''r'', ctrlKey = False \<rparr>"

text \<open>
  Exactly one of \<open>dx\<close>, \<open>dy\<close> is not zero, and its absolute value is the grid size.
\<close>

definition axis_aligned :: "game \<Rightarrow> bool" where
  "axis_aligned s \<longleftrightarrow>
     (snake_dx s \<noteq> 0 \<and> snake_dy s = 0 \<and> \<bar>snake_dx s\<bar> = grid)
     \<or> (snake_dx s = 0 \<and> snake_dy s \<noteq> 0 \<and> \<bar>snake_dy s\<bar> = grid)"

text \<open>
  What a tick will meet after the snake has advanced: a cell on the apple, or two cells
  on the same place. A quiet run is a run of ticks that meet neither.
\<close>

definition apple_hit :: "game \<Rightarrow> bool" where
  "apple_hit s \<longleftrightarrow>
     list_ex (\<lambda>cell. fst cell = apple_x s \<and> snd cell = apple_y s) (snake_cells (advance s))"

definition self_hit :: "game \<Rightarrow> bool" where
  "self_hit s \<longleftrightarrow> \<not> distinct (snake_cells (advance s))"

fun quiet_run :: "(nat \<Rightarrow> double) \<Rightarrow> nat \<Rightarrow> game \<Rightarrow> bool" where
  "quiet_run rnd 0 s = True"
| "quiet_run rnd (Suc k) s =
     (\<not> apple_hit s \<and> \<not> self_hit s \<and> quiet_run rnd k (tick rnd s))"

text \<open>
  The head's new cell is on the apple; and the place that the apple is moved to when it
  is eaten then is under one of the cells behind the head.
\<close>

definition head_on_apple :: "game \<Rightarrow> bool" where
  "head_on_apple s \<longleftrightarrow>
     (case snake_cells (advance s) of
        [] \<Rightarrow> False
      | cell # rest \<Rightarrow> fst cell = apple_x s \<and> snd cell = apple_y s)"

definition apple_lands_on_body :: "(nat \<Rightarrow> double) \<Rightarrow> game \<Rightarrow> bool" where
  "apple_lands_on_body rnd s \<longleftrightarrow>
     list_ex (\<lambda>cell. fst cell = apple_x (eatApple rnd (advance s))
                   \<and> snd cell = apple_y (eatApple rnd (advance s)))
       (tl (snake_cells (advance s)))"

text \<open>
  The configuration that the literal \<^verbatim>\<open>snake\<close> and \<^verbatim>\<open>resetGame()\<close> set up, the
  velocity aside (keys may turn the snake before its first step): the head position
  \<open>(160, 160)\<close>, no cells, room for four.
\<close>

definition initial_configuration :: "game \<Rightarrow> bool" where
  "initial_configuration s \<longleftrightarrow>
     snake_x s = 160 \<and> snake_y s = 160 \<and> snake_cells s = [] \<and> snake_maxCells s = 4"

text \<open>A coordinate is the corner of a cell of the board.\<close>

definition on_grid :: "int \<Rightarrow> int \<Rightarrow> bool" where
  "on_grid extent v \<longleftrightarrow> 0 \<le> v \<and> v < extent \<and> v mod grid = 0"

text \<open>Some sequences of random numbers and of events to run the game on.\<close>

definition rnd_half :: "nat \<Rightarrow> double" where
  "rnd_half n = (1, - 1)"

text \<open>
  The doubles nearest to 0.58, 0.42 and 0.46 are \<open>5224175567749775 * 2^-53\<close>,
  \<open>7566047373982433 * 2^-54\<close> and \<open>8286623314361713 * 2^-54\<close>; 0.5 is \<open>1 * 2^-1\<close>.
  \<open>rnd_stale_cell\<close> is 0.58, 0.42, 0.5, 0.5, ... and \<open>rnd_under_body\<close> is
  0.5, 0.42, 0.46, 0.42, 0.5, 0.5, ...
\<close>

definition rnd_stale_cell :: "nat \<Rightarrow> double" where
  "rnd_stale_cell n =
     (if n = 0 then (5224175567749775, - 53)
      else if n = 1 then (7566047373982433, - 54)
      else (1, - 1))"

definition rnd_under_body :: "nat \<Rightarrow> double" where
  "rnd_under_body n =
     (if n = 0 then (1, - 1)
      else if n = 1 then (7566047373982433, - 54)
      else if n = 2 then (8286623314361713, - 54)
      else if n = 3 then (7566047373982433, - 54)
      else (1, - 1))"

definition reversing_keys :: "event list" where
  "reversing_keys =
     replicate 24 Frame @ [KeyDown (arrow_key Up False), KeyDown (arrow_key Left False)]"

definition apple_ahead :: game where
  "apple_ahead = tick rnd_under_body (handleKeyDown rnd_under_body restart_key initial_game)"

text \<open>
  \<open>rnd_rounded\<close> is 0.46, 0.46, 0.48, 0.46, 0.5, 0.5, ... (the double nearest to 0.48
  is \<open>8646911284551352 * 2^-54\<close>). The events \<open>turning_left\<close> restart the game, which
  puts the apple at \<open>(176, 176)\<close>, and lead the snake right, down and left towards it.
\<close>

definition rnd_rounded :: "nat \<Rightarrow> double" where
  "rnd_rounded n =
     (if n = 0 then (8286623314361713, - 54)
      else if n = 1 then (8286623314361713, - 54)
      else if n = 2 then (8646911284551352, - 54)
      else if n = 3 then (8286623314361713, - 54)
      else (1, - 1))"

definition turning_left :: "event list" where
  "turning_left =
     [KeyDown restart_key] @ replicate 18 Frame @ [KeyDown (arrow_key Down False)]
     @ replicate 6 Frame @ [KeyDown (arrow_key Left False)] @ replicate 6 Frame"

definition apple_on_the_left :: game where
  "apple_on_the_left = run rnd_rounded turning_left initial_game"

section \<open>Properties of the menu\<close>

lemma moveDown_items [simp]: "items (moveDown m) = items m"
  by (simp add: moveDown_def)

lemma funpow_moveDown_items [simp]: "items ((moveDown ^^ k) m) = items m"
  by (induction k) simp_all

lemma moveDown_more: "moveDown m = m\<lparr>currentIndex := currentIndex (moveDown m)\<rparr>"
  by (simp add: moveDown_def)

lemma funpow_moveDown_more:
  "(moveDown ^^ k) m = m\<lparr>currentIndex := currentIndex ((moveDown ^^ k) m)\<rparr>"
proof (induction k)
  case 0
  show ?case by simp
next
  case (Suc k)
  let ?m = "(moveDown ^^ k) m"
  have "moveDown ?m = ?m\<lparr>currentIndex := currentIndex (moveDown ?m)\<rparr>"
    by (rule moveDown_more)
  also have "\<dots> = (m\<lparr>currentIndex := currentIndex ?m\<rparr>)\<lparr>currentIndex := currentIndex (moveDown ?m)\<rparr>"
    using Suc by simp
  finally show ?case by simp
qed

lemma moveDown_index:
  "currentIndex (moveDown m) =
     (if currentIndex m < int (length (items m)) - 1 then currentIndex m + 1 else 0)"
  by (simp add: moveDown_def)

text \<open>
  Moving down \<open>k\<close> times from a position of the list advances the cursor by \<open>k\<close> modulo
  the length.
\<close>

lemma funpow_moveDown_index:
  assumes "cursor_in_range m"
  shows "currentIndex ((moveDown ^^ k) m) = (currentIndex m + int k) mod int (length (items m))"
proof (induction k)
  case 0
  from assms show ?case by (simp add: cursor_in_range_def)
next
  case (Suc k)
  let ?n = "int (length (items m))"
  let ?c = "(currentIndex m + int k) mod ?n"
  from assms have n: "0 < ?n" unfolding cursor_in_range_def by linarith
  then have range: "0 \<le> ?c" "?c < ?n" by simp_all
  have step: "(if ?c < ?n - 1 then ?c + 1 else 0) = (?c + 1) mod ?n"
  proof (cases "?c < ?n - 1")
    case True
    with range show ?thesis by simp
  next
    case False
    with range have "?c + 1 = ?n" by linarith
    with False show ?thesis by simp
  qed
  have "currentIndex ((moveDown ^^ Suc k) m) = currentIndex (moveDown ((moveDown ^^ k) m))"
    by simp
  also have "\<dots> = (if ?c < ?n - 1 then ?c + 1 else 0)"
    by (simp only: moveDown_index funpow_moveDown_items Suc)
  also have "\<dots> = (?c + 1) mod ?n"
    by (rule step)
  also have "\<dots> = (currentIndex m + int k + 1) mod ?n"
    by (simp add: mod_add_left_eq)
  also have "\<dots> = (currentIndex m + int (Suc k)) mod ?n"
    by (simp add: ac_simps)
  finally show ?case .
qed

text \<open>
  C5. For a non-empty item list and a starting cursor that is a position of the list
  (\<open>0 \<le> cursor < items.length\<close>), calling \<^verbatim>\<open>moveDown()\<close> exactly \<open>items.length\<close> times
  brings the menu back to the state it started from, cursor included.
\<close>

theorem moveDown_cycle:
  assumes "items m \<noteq> []" and "cursor_in_range m"
  shows "(moveDown ^^ length (items m)) m = m"
proof -
  from assms(2) have "0 \<le> currentIndex m" "currentIndex m < int (length (items m))"
    by (simp_all add: cursor_in_range_def)
  then have "currentIndex ((moveDown ^^ length (items m)) m) = currentIndex m"
    by (simp add: funpow_moveDown_index [OF assms(2)])
  then show ?thesis
    using funpow_moveDown_more [of "length (items m)" m] by simp
qed

theorem moveDown_cycle_witness:
  "items (moveUp (menu_of [snake_item, snake_item, snake_item])) \<noteq> []
   \<and> cursor_in_range (moveUp (menu_of [snake_item, snake_item, snake_item]))
   \<and> currentIndex (moveUp (menu_of [snake_item, snake_item, snake_item])) = 2
   \<and> (moveDown ^^ length (items (moveUp (menu_of [snake_item, snake_item, snake_item]))))
        (moveUp (menu_of [snake_item, snake_item, snake_item]))
      = moveUp (menu_of [snake_item, snake_item, snake_item])"
proof -
  let ?m = "moveUp (menu_of [snake_item, snake_item, snake_item])"
  have a: "items ?m \<noteq> []"
    by (simp add: moveUp_def menu_of_def constructor_def)
  have b: "cursor_in_range ?m"
    by (simp add: cursor_in_range_def moveUp_def menu_of_def constructor_def)
  have c: "currentIndex ?m = 2"
    by (simp add: moveUp_def menu_of_def constructor_def)
  from a b c moveDown_cycle [OF a b] show ?thesis by simp
qed

text \<open>
  C6. On an empty item list \<^verbatim>\<open>moveUp()\<close> is not a no-op: from the cursor 0 that the
  constructor sets, the else-branch stores \<open>items.length - 1 = -1\<close>. The cursor stays
  at \<open>-1\<close> when an item is added afterwards, so the menu then selects nothing although
  its list is not empty. (\<^verbatim>\<open>removeItem\<close> clamps the cursor of an emptied list to 0,
  and \<^verbatim>\<open>moveDown()\<close> leaves it at 0.)
\<close>

theorem moveUp_empty_list:
  "items (menu_of []) = [] \<and> currentIndex (menu_of []) = 0
   \<and> currentIndex (moveUp (menu_of [])) = - 1
   \<and> moveUp (menu_of []) \<noteq> menu_of []
   \<and> moveDown (menu_of []) = menu_of []
   \<and> currentIndex (removeItem ''snake'' (menu_of [snake_item])) = 0
   \<and> getCurrentItem (addItem snake_item (moveUp (menu_of []))) = None
   \<and> fst (select (addItem snake_item (moveUp (menu_of [])))) = []"
proof -
  have neq: "moveUp (menu_of []) \<noteq> menu_of []"
  proof
    assume "moveUp (menu_of []) = menu_of []"
    then have "currentIndex (moveUp (menu_of [])) = currentIndex (menu_of [])"
      by simp
    then show False
      by (simp add: moveUp_def menu_of_def constructor_def)
  qed
  have rm: "currentIndex (removeItem ''snake'' (menu_of [snake_item])) = 0"
    by (simp add: removeItem_def menu_of_def constructor_def snake_item_def)
  have rest: "items (menu_of []) = [] \<and> currentIndex (menu_of []) = 0
      \<and> currentIndex (moveUp (menu_of [])) = - 1
      \<and> moveDown (menu_of []) = menu_of []
      \<and> getCurrentItem (addItem snake_item (moveUp (menu_of []))) = None
      \<and> fst (select (addItem snake_item (moveUp (menu_of [])))) = []"
    by (simp add: moveUp_def moveDown_def menu_of_def constructor_def addItem_def
        getCurrentItem_def select_def js_index_def)
  from neq rm rest show ?thesis by simp
qed

text \<open>
  The part of the sentence about a list that has items: from a position of the list,
  \<^verbatim>\<open>moveUp()\<close> steps to the previous position and wraps from 0 to the last one.
\<close>

lemma moveUp_in_range:
  assumes "cursor_in_range m"
  shows "currentIndex (moveUp m) = (currentIndex m - 1) mod int (length (items m))"
    and "items (moveUp m) = items m"
    and "cursor_in_range (moveUp m)"
proof -
  from assms have r: "0 \<le> currentIndex m" "currentIndex m < int (length (items m))"
    by (simp_all add: cursor_in_range_def)
  show "currentIndex (moveUp m) = (currentIndex m - 1) mod int (length (items m))"
  proof (cases "currentIndex m > 0")
    case True
    with r show ?thesis by (simp add: moveUp_def)
  next
    case False
    with r have z: "currentIndex m = 0" by simp
    from r have "0 < int (length (items m))"
      by linarith
    then have "(- 1) mod int (length (items m)) = int (length (items m)) - 1"
      using zmod_minus1 [of "int (length (items m))"] by simp
    with z show ?thesis by (simp add: moveUp_def)
  qed
  show "items (moveUp m) = items m"
    by (simp add: moveUp_def)
  from r show "cursor_in_range (moveUp m)"
    by (auto simp add: cursor_in_range_def moveUp_def)
qed

text \<open>
  C7. On a menu whose item list is empty, \<^verbatim>\<open>select()\<close> invokes no callback, lets no
  error escape and returns the menu as it was, wherever the cursor stands and whatever
  the callbacks would do.
\<close>

theorem select_empty_list:
  assumes "items m = []"
  shows "select m = ([], None, m)"
  using assms by (simp add: select_def js_index_def)

theorem select_empty_list_witness:
  "items (moveUp (menu_of [])) = [] \<and> select (moveUp (menu_of [])) = ([], None, moveUp (menu_of []))"
proof -
  have a: "items (moveUp (menu_of [])) = []"
    by (simp add: moveUp_def menu_of_def constructor_def)
  from a select_empty_list [OF a] show ?thesis by simp
qed

text \<open>
  C9. \<^verbatim>\<open>select()\<close> and \<^verbatim>\<open>exit()\<close> return the menu state they were given, so the
  items and the cursor are unchanged. \<^verbatim>\<open>select()\<close> invokes \<^verbatim>\<open>onSelect\<close> on the item
  under the cursor exactly when there is one, and \<^verbatim>\<open>exit()\<close> invokes \<^verbatim>\<open>onExit\<close>
  exactly when one was provided. (What the host's callbacks do to the menu is theirs.)
\<close>

theorem select_exit_frame:
  "snd (snd (select m)) = m \<and> snd (snd (exit_menu m)) = m
   \<and> fst (select m) = (case getCurrentItem m of None \<Rightarrow> [] | Some item \<Rightarrow> [OnSelect item])
   \<and> fst (exit_menu m) = (case onExit m of None \<Rightarrow> [] | Some outcome \<Rightarrow> [OnExit])"
  by (simp add: select_def exit_menu_def getCurrentItem_def split: option.splits)

theorem select_exit_frame_witness:
  "snd (snd (select (menu_of [snake_item]))) = menu_of [snake_item]
   \<and> snd (snd (exit_menu (menu_of [snake_item]))) = menu_of [snake_item]
   \<and> fst (select (menu_of [snake_item])) = [OnSelect snake_item]
   \<and> fst (exit_menu (menu_of [snake_item])) = []"
proof -
  have a: "getCurrentItem (menu_of [snake_item]) = Some snake_item"
    by (simp add: getCurrentItem_def js_index_def menu_of_def constructor_def)
  have b: "onExit (menu_of [snake_item]) = None"
    by (simp add: menu_of_def constructor_def)
  from a b select_exit_frame [of "menu_of [snake_item]"] show ?thesis by simp
qed

text \<open>
  C10. On a menu whose item list is empty, \<^verbatim>\<open>getCurrentItem()\<close> returns no item
  (\<^verbatim>\<open>undefined\<close>), wherever the cursor stands.
\<close>

theorem getCurrentItem_empty_list:
  assumes "items m = []"
  shows "getCurrentItem m = None"
  using assms by (simp add: getCurrentItem_def js_index_def)

theorem getCurrentItem_empty_list_witness:
  "items (menu_of []) = [] \<and> getCurrentItem (menu_of []) = None"
proof -
  have a: "items (menu_of []) = []"
    by (simp add: menu_of_def constructor_def)
  from a getCurrentItem_empty_list [OF a] show ?thesis by simp
qed

section \<open>Properties of the simulation\<close>

lemma resetGame_eq:
  "resetGame rnd s =
     s\<lparr>snake_x := 160, snake_y := 160, snake_cells := [], snake_maxCells := 4,
       snake_dx := grid, snake_dy := 0, score := 0,
       apple_x := floor_double (mul_double (rnd (draws s)) 25) * grid,
       apple_y := floor_double (mul_double (rnd (draws s + 1)) 25) * grid,
       draws := draws s + 2\<rparr>"
  by (simp add: resetGame_def getRandomInt_def)

lemma eatApple_eq:
  "eatApple rnd s =
     s\<lparr>snake_maxCells := snake_maxCells s + 1, score := score s + 10,
       apple_x := floor_double (mul_double (rnd (draws s)) 25) * grid,
       apple_y := floor_double (mul_double (rnd (draws s + 1)) 25) * grid,
       draws := draws s + 2\<rparr>"
  by (simp add: eatApple_def getRandomInt_def)

lemma direction_of_Some:
  "direction_of s = Some d \<longleftrightarrow> (snake_dx s, snake_dy s) = velocity d"
  by (cases d) (auto simp add: direction_of_def grid_def split: if_splits)

text \<open>
  C4. An arrow key is accepted exactly when the direction it asks for is perpendicular
  to the current direction: the snake then takes the requested velocity; otherwise the
  key changes nothing. For a snake moving Right, Left leaves the direction as it is,
  and Up and Down are taken.
\<close>

theorem arrow_key_perpendicular:
  assumes "direction_of s = Some d"
  shows "direction_of (handleKeyDown rnd (arrow_key r ctrl) s)
           = Some (if perpendicular r d then r else d)
         \<and> handleKeyDown rnd (arrow_key r ctrl) s
           = s\<lparr>snake_dx := fst (velocity (if perpendicular r d then r else d)),
               snake_dy := snd (velocity (if perpendicular r d then r else d))\<rparr>"
proof -
  from assms have v: "snake_dx s = fst (velocity d)" "snake_dy s = snd (velocity d)"
    by (simp_all add: direction_of_Some prod_eq_iff)
  show ?thesis
  proof (cases s)
    case (fields sx sy sdx sdy cs mc ax ay sc cnt dr ex)
    with v show ?thesis
      by (cases r; cases d)
         (simp_all add: handleKeyDown_def direction_of_def perpendicular_def grid_def)
  qed
qed


theorem arrow_key_perpendicular_witness:
  "direction_of initial_game = Some Right
   \<and> direction_of (handleKeyDown rnd_half (arrow_key Left False) initial_game) = Some Right
   \<and> handleKeyDown rnd_half (arrow_key Left False) initial_game = initial_game
   \<and> direction_of (handleKeyDown rnd_half (arrow_key Up False) initial_game) = Some Up
   \<and> direction_of (handleKeyDown rnd_half (arrow_key Down False) initial_game) = Some Down"
proof -
  have a: "direction_of initial_game = Some Right"
    by (simp add: direction_of_def initial_game_def grid_def)
  have b: "initial_game\<lparr>snake_dx := fst (velocity Right), snake_dy := snd (velocity Right)\<rparr>
             = initial_game"
    by (simp add: initial_game_def)
  have l: "direction_of (handleKeyDown rnd_half (arrow_key Left False) initial_game) = Some Right"
    using arrow_key_perpendicular [OF a, of rnd_half Left False, THEN conjunct1]
    by (simp add: perpendicular_def)
  have l': "handleKeyDown rnd_half (arrow_key Left False) initial_game = initial_game"
    using arrow_key_perpendicular [OF a, of rnd_half Left False, THEN conjunct2] b
    by (simp add: perpendicular_def)
  have u: "direction_of (handleKeyDown rnd_half (arrow_key Up False) initial_game) = Some Up"
    using arrow_key_perpendicular [OF a, of rnd_half Up False, THEN conjunct1]
    by (simp add: perpendicular_def)
  have d: "direction_of (handleKeyDown rnd_half (arrow_key Down False) initial_game) = Some Down"
    using arrow_key_perpendicular [OF a, of rnd_half Down False, THEN conjunct1]
    by (simp add: perpendicular_def)
  from a l l' u d show ?thesis
    by (simp only: simp_thms)
qed

lemma axis_aligned_velocity:
  "snake_dx t = snake_dx s \<Longrightarrow> snake_dy t = snake_dy s \<Longrightarrow> axis_aligned t = axis_aligned s"
  by (simp add: axis_aligned_def)

lemma axis_aligned_resetGame: "axis_aligned (resetGame rnd s)"
  by (simp add: resetGame_eq axis_aligned_def grid_def)

lemma axis_aligned_eatApple: "axis_aligned (eatApple rnd s) = axis_aligned s"
  by (rule axis_aligned_velocity) (simp_all add: eatApple_eq)

lemma axis_aligned_advance: "axis_aligned (advance s) = axis_aligned s"
  by (rule axis_aligned_velocity) (simp_all add: advance_def Let_def)

lemma axis_aligned_collide: "axis_aligned s \<Longrightarrow> axis_aligned (collide rnd cell i s)"
proof (induction rnd cell i s rule: collide.induct)
  case (1 rnd cell i s)
  show ?case
  proof (cases "i < length (snake_cells s)")
    case True
    with 1 show ?thesis
      by (subst collide.simps) (simp add: axis_aligned_resetGame)
  next
    case False
    with 1 show ?thesis
      by (subst collide.simps) simp
  qed
qed

lemma axis_aligned_forEach_cells:
  "axis_aligned s \<Longrightarrow> axis_aligned (forEach_cells rnd cs index s)"
  by (induction cs arbitrary: index s) (simp_all add: axis_aligned_collide axis_aligned_eatApple)

lemma axis_aligned_tick: "axis_aligned s \<Longrightarrow> axis_aligned (tick rnd s)"
  by (simp add: tick_def Let_def axis_aligned_forEach_cells axis_aligned_advance)

lemma axis_aligned_gameLoop: "axis_aligned s \<Longrightarrow> axis_aligned (gameLoop rnd s)"
proof -
  assume a: "axis_aligned s"
  have "axis_aligned (s\<lparr>count := count s + 1\<rparr>)" "axis_aligned (s\<lparr>count := count s + 1, count := 0\<rparr>)"
    using a by (simp_all add: axis_aligned_def)
  then show ?thesis
    by (simp add: gameLoop_def Let_def axis_aligned_tick)
qed

lemma axis_aligned_handleKeyDown: "axis_aligned s \<Longrightarrow> axis_aligned (handleKeyDown rnd e s)"
proof -
  assume a: "axis_aligned s"
  have r: "axis_aligned (resetGame rnd s)"
    by (rule axis_aligned_resetGame)
  have "\<And>t. snake_dx t = snake_dx s \<Longrightarrow> snake_dy t = snake_dy s \<Longrightarrow> axis_aligned t"
    using a by (simp add: axis_aligned_def)
  then have e: "axis_aligned (s\<lparr>exits := exits s + 1\<rparr>)"
    by simp
  have v: "axis_aligned (s\<lparr>snake_dx := - grid, snake_dy := 0\<rparr>)"
    "axis_aligned (s\<lparr>snake_dy := - grid, snake_dx := 0\<rparr>)"
    "axis_aligned (s\<lparr>snake_dx := grid, snake_dy := 0\<rparr>)"
    "axis_aligned (s\<lparr>snake_dy := grid, snake_dx := 0\<rparr>)"
    by (simp_all add: axis_aligned_def grid_def)
  from a r e v show ?thesis
    by (simp add: handleKeyDown_def)
qed

lemma axis_aligned_step: "axis_aligned s \<Longrightarrow> axis_aligned (step rnd s ev)"
  by (cases ev) (simp_all add: axis_aligned_gameLoop axis_aligned_handleKeyDown)

lemma axis_aligned_run: "axis_aligned s \<Longrightarrow> axis_aligned (run rnd evs s)"
  unfolding run_def by (induction evs arbitrary: s) (simp_all add: axis_aligned_step)

lemma axis_aligned_initial: "axis_aligned initial_game"
  by (simp add: axis_aligned_def initial_game_def grid_def)

lemma axis_aligned_direction: "axis_aligned s \<longleftrightarrow> (\<exists>d. direction_of s = Some d)"
proof
  assume "axis_aligned s"
  then show "\<exists>d. direction_of s = Some d"
    by (auto simp add: axis_aligned_def direction_of_def grid_def)
next
  assume "\<exists>d. direction_of s = Some d"
  then obtain d where "(snake_dx s, snake_dy s) = velocity d"
    by (auto simp add: direction_of_Some)
  then show "axis_aligned s"
    by (cases d) (simp_all add: axis_aligned_def grid_def)
qed

text \<open>
  C8. The velocity is axis-aligned with the magnitude of the grid size (exactly one of
  \<open>dx\<close>, \<open>dy\<close> is not zero, and its absolute value is 16) in the initial state,
  after every reset, and it stays so over every key event and every frame; so it holds in
  every state that a run of events reaches from the initial state, whatever the random
  numbers, and the direction there is one of Up, Down, Left, Right.
\<close>

theorem velocity_axis_aligned:
  "axis_aligned initial_game
   \<and> axis_aligned (resetGame rnd s)
   \<and> (axis_aligned s \<longrightarrow> axis_aligned (handleKeyDown rnd e s) \<and> axis_aligned (gameLoop rnd s))
   \<and> axis_aligned (run rnd evs initial_game)
   \<and> (\<exists>d. direction_of (run rnd evs initial_game) = Some d)"
proof -
  have "axis_aligned (run rnd evs initial_game)"
    by (rule axis_aligned_run) (rule axis_aligned_initial)
  moreover from this have "\<exists>d. direction_of (run rnd evs initial_game) = Some d"
    by (simp add: axis_aligned_direction)
  ultimately show ?thesis
    by (simp add: axis_aligned_initial axis_aligned_resetGame axis_aligned_handleKeyDown
        axis_aligned_gameLoop)
qed

theorem velocity_axis_aligned_witness:
  "axis_aligned initial_game
   \<and> axis_aligned (resetGame rnd_half initial_game)
   \<and> axis_aligned (handleKeyDown rnd_half (arrow_key Up False) initial_game)
   \<and> axis_aligned (gameLoop rnd_half initial_game)
   \<and> axis_aligned (run rnd_half [KeyDown (arrow_key Up False), Frame, KeyDown restart_key] initial_game)"
  using velocity_axis_aligned [of rnd_half initial_game "arrow_key Up False"
      "[KeyDown (arrow_key Up False), Frame, KeyDown restart_key]"]
  by blast

text \<open>
  A tick that meets neither the apple nor the snake itself only advances the snake.
\<close>

lemma collide_no_match:
  "(\<And>j. i \<le> j \<Longrightarrow> j < length (snake_cells s) \<Longrightarrow> snake_cells s ! j \<noteq> cell)
   \<Longrightarrow> collide rnd cell i s = s"
proof (induction rnd cell i s rule: collide.induct)
  case (1 rnd cell i s)
  show ?case
  proof (cases "i < length (snake_cells s)")
    case True
    with "1.prems" have ne: "snake_cells s ! i \<noteq> cell"
      by simp
    then have same: "(if fst cell = fst (snake_cells s ! i) \<and> snd cell = snd (snake_cells s ! i)
                then resetGame rnd s else s) = s"
      by (auto simp add: prod_eq_iff)
    have "collide rnd cell (i + 1) s = s"
      using "1.IH" [OF True] "1.prems" unfolding same by simp
    with True same show ?thesis
      by (subst collide.simps) simp
  next
    case False
    then show ?thesis
      by (subst collide.simps) simp
  qed
qed

lemma forEach_cells_quiet:
  assumes "distinct (snake_cells s)"
  shows "cs = drop index (snake_cells s)
    \<Longrightarrow> \<not> list_ex (\<lambda>cell. fst cell = apple_x s \<and> snd cell = apple_y s) cs
    \<Longrightarrow> forEach_cells rnd cs index s = s"
proof (induction cs arbitrary: index)
  case Nil
  show ?case by simp
next
  case (Cons cell rest)
  from Cons.prems(1) have less: "index < length (snake_cells s)"
    by (metis drop_all list.distinct(1) not_le)
  with Cons.prems(1) have cell: "cell = snake_cells s ! index"
    and rest: "rest = drop (Suc index) (snake_cells s)"
    by (simp_all add: Cons_nth_drop_Suc [symmetric])
  from Cons.prems(2) have no_apple: "\<not> (fst cell = apple_x s \<and> snd cell = apple_y s)"
    and no_apple_rest: "\<not> list_ex (\<lambda>cell. fst cell = apple_x s \<and> snd cell = apple_y s) rest"
    by simp_all
  have "collide rnd cell (index + 1) s = s"
  proof (rule collide_no_match)
    fix j
    assume "index + 1 \<le> j" "j < length (snake_cells s)"
    with assms less cell show "snake_cells s ! j \<noteq> cell"
      by (simp add: nth_eq_iff_index_eq)
  qed
  with no_apple Cons.IH [OF rest no_apple_rest] show ?case
    by auto
qed

lemma advance_frame [simp]:
  "apple_x (advance s) = apple_x s" "apple_y (advance s) = apple_y s"
  "snake_dx (advance s) = snake_dx s" "snake_dy (advance s) = snake_dy s"
  "snake_maxCells (advance s) = snake_maxCells s" "score (advance s) = score s"
  "draws (advance s) = draws s" "count (advance s) = count s" "exits (advance s) = exits s"
  by (simp_all add: advance_def Let_def)

lemma tick_quiet:
  assumes "\<not> apple_hit s" and "\<not> self_hit s"
  shows "tick rnd s = advance s"
proof -
  from assms(2) have d: "distinct (snake_cells (advance s))"
    by (simp add: self_hit_def)
  from assms(1) have a: "\<not> list_ex (\<lambda>cell. fst cell = apple_x (advance s) \<and> snd cell = apple_y (advance s))
      (snake_cells (advance s))"
    by (simp add: apple_hit_def)
  have "forEach_cells rnd (snake_cells (advance s)) 0 (advance s) = advance s"
    by (rule forEach_cells_quiet [OF d _ a]) simp
  then show ?thesis
    by (simp add: tick_def Let_def)
qed

lemma wrap_forward:
  fixes v :: int
  assumes "0 \<le> v" and "v < 400" and "v mod 16 = 0"
  shows "(if v + 16 < 0 then 400 - 16 else if v + 16 \<ge> 400 then 0 else v + 16) = (v + 16) mod 400"
proof (cases "v + 16 \<ge> 400")
  case True
  from assms(3) obtain q where q: "v = 16 * q"
    by (auto simp add: mod_eq_0_iff_dvd)
  with assms True have "q = 24"
    by simp
  with q show ?thesis
    by simp
next
  case False
  with assms show ?thesis
    by simp
qed

lemma wrap_backward:
  fixes v :: int
  assumes "0 \<le> v" and "v < 400" and "v mod 16 = 0"
  shows "(if v + - 16 < 0 then 400 - 16 else if v + - 16 \<ge> 400 then 0 else v + - 16)
           = (v + - 16) mod 400"
proof (cases "v + - 16 < 0")
  case True
  from assms(3) obtain q where q: "v = 16 * q"
    by (auto simp add: mod_eq_0_iff_dvd)
  with assms True have "q = 0"
    by simp
  with q show ?thesis
    by simp
next
  case False
  with assms show ?thesis
    by simp
qed

lemma wrap_mod:
  fixes v d :: int
  assumes "0 \<le> v" and "v < 400" and "v mod 16 = 0" and "d = 16 \<or> d = 0 \<or> d = - 16"
  shows "(if v + d < 0 then 400 - 16 else if v + d \<ge> 400 then 0 else v + d) = (v + d) mod 400"
proof -
  from assms(4) consider "d = 16" | "d = 0" | "d = - 16"
    by blast
  then show ?thesis
  proof cases
    case 1
    show ?thesis
      unfolding 1 by (rule wrap_forward [OF assms(1-3)])
  next
    case 2
    with assms(1,2) show ?thesis
      by simp
  next
    case 3
    show ?thesis
      unfolding 3 by (rule wrap_backward [OF assms(1-3)])
  qed
qed

lemma mod_400_grid:
  fixes v d :: int
  assumes "v mod 16 = 0" and "d = 16 \<or> d = 0 \<or> d = - 16"
  shows "((v + d) mod 400) mod 16 = 0"
proof -
  have "((v + d) mod 400) mod 16 = (v + d) mod 16"
    by (simp add: mod_mod_cancel)
  also have "\<dots> = (v mod 16 + d mod 16) mod 16"
    by (simp add: mod_add_eq)
  also from assms have "\<dots> = 0"
    by auto
  finally show ?thesis .
qed

lemma advance_position:
  assumes "on_grid canvas_width (snake_x s)" and "on_grid canvas_height (snake_y s)"
    and "axis_aligned s"
  shows "snake_x (advance s) = (snake_x s + snake_dx s) mod canvas_width"
    and "snake_y (advance s) = (snake_y s + snake_dy s) mod canvas_height"
    and "on_grid canvas_width (snake_x (advance s))"
    and "on_grid canvas_height (snake_y (advance s))"
proof -
  from assms(1) have x: "0 \<le> snake_x s" "snake_x s < 400" "snake_x s mod 16 = 0"
    by (simp_all add: on_grid_def canvas_width_def grid_def)
  from assms(2) have y: "0 \<le> snake_y s" "snake_y s < 400" "snake_y s mod 16 = 0"
    by (simp_all add: on_grid_def canvas_height_def grid_def)
  from assms(3) have dx: "snake_dx s = 16 \<or> snake_dx s = 0 \<or> snake_dx s = - 16"
    and dy: "snake_dy s = 16 \<or> snake_dy s = 0 \<or> snake_dy s = - 16"
    by (auto simp add: axis_aligned_def grid_def)
  have ax: "snake_x (advance s) =
      (if snake_x s + snake_dx s < 0 then 400 - 16
       else if snake_x s + snake_dx s \<ge> 400 then 0 else snake_x s + snake_dx s)"
    by (simp add: advance_def Let_def canvas_width_def canvas_height_def grid_def)
  have ay: "snake_y (advance s) =
      (if snake_y s + snake_dy s < 0 then 400 - 16
       else if snake_y s + snake_dy s \<ge> 400 then 0 else snake_y s + snake_dy s)"
    by (simp add: advance_def Let_def canvas_width_def canvas_height_def grid_def)
  from ax wrap_mod [OF x dx] show X: "snake_x (advance s) = (snake_x s + snake_dx s) mod canvas_width"
    by (simp only: canvas_width_def)
  from ay wrap_mod [OF y dy] show Y: "snake_y (advance s) = (snake_y s + snake_dy s) mod canvas_height"
    by (simp only: canvas_height_def)
  from mod_400_grid [OF x(3) dx] show "on_grid canvas_width (snake_x (advance s))"
    unfolding X by (simp add: on_grid_def canvas_width_def grid_def)
  from mod_400_grid [OF y(3) dy] show "on_grid canvas_height (snake_y (advance s))"
    unfolding Y by (simp add: on_grid_def canvas_height_def grid_def)
qed

lemma advance_cells:
  assumes "int (length (snake_cells s)) \<le> snake_maxCells s" and "1 \<le> snake_maxCells s"
  shows "int (length (snake_cells (advance s)))
           = min (int (length (snake_cells s)) + 1) (snake_maxCells s)"
    and "hd (snake_cells (advance s)) = (snake_x (advance s), snake_y (advance s))"
    and "snake_cells (advance s) \<noteq> []"
proof -
  let ?h = "(snake_x (advance s), snake_y (advance s))"
  have c: "snake_cells (advance s) =
      (if int (length (snake_cells s)) + 1 > snake_maxCells s
       then butlast (?h # snake_cells s) else ?h # snake_cells s)"
    by (auto simp add: advance_def Let_def)
  from assms show "int (length (snake_cells (advance s)))
           = min (int (length (snake_cells s)) + 1) (snake_maxCells s)"
    unfolding c by auto
  have ne: "snake_cells s \<noteq> []" if "int (length (snake_cells s)) + 1 > snake_maxCells s"
    using that assms by auto
  then show "hd (snake_cells (advance s)) = ?h" "snake_cells (advance s) \<noteq> []"
    unfolding c by auto
qed


lemma quiet_run_straight:
  assumes "quiet_run rnd k s" and "axis_aligned s"
    and "on_grid canvas_width (snake_x s)" and "on_grid canvas_height (snake_y s)"
    and "int (length (snake_cells s)) \<le> snake_maxCells s" and "1 \<le> snake_maxCells s"
  shows "snake_x ((tick rnd ^^ k) s) = (snake_x s + int k * snake_dx s) mod canvas_width
       \<and> snake_y ((tick rnd ^^ k) s) = (snake_y s + int k * snake_dy s) mod canvas_height
       \<and> int (length (snake_cells ((tick rnd ^^ k) s)))
           = min (int (length (snake_cells s)) + int k) (snake_maxCells s)
       \<and> (0 < k \<longrightarrow> hd (snake_cells ((tick rnd ^^ k) s))
                     = (snake_x ((tick rnd ^^ k) s), snake_y ((tick rnd ^^ k) s)))"
  using assms
proof (induction k arbitrary: s)
  case 0
  then show ?case
    by (simp add: on_grid_def)
next
  case (Suc k)
  let ?a = "advance s"
  from Suc.prems(1) have t: "tick rnd s = ?a"
    by (simp add: tick_quiet)
  from Suc.prems(1) have "quiet_run rnd k (tick rnd s)"
    by simp
  then have q: "quiet_run rnd k ?a"
    by (simp only: t)
  have pow: "(tick rnd ^^ Suc k) s = (tick rnd ^^ k) ?a"
    using t by (simp add: funpow_swap1)
  note pos = advance_position [OF Suc.prems(3,4,2)]
  note cel = advance_cells [OF Suc.prems(5,6)]
  have al: "axis_aligned ?a"
    using Suc.prems(2) by (simp add: axis_aligned_def)
  have le: "int (length (snake_cells ?a)) \<le> snake_maxCells ?a"
    using cel(1) by simp
  have one: "1 \<le> snake_maxCells ?a"
    using Suc.prems(6) by simp
  note ih = Suc.IH [OF q al pos(3,4) le one]
  have x: "snake_x ((tick rnd ^^ k) ?a) = (snake_x s + int (Suc k) * snake_dx s) mod canvas_width"
  proof -
    have "snake_x ((tick rnd ^^ k) ?a)
            = ((snake_x s + snake_dx s) mod canvas_width + int k * snake_dx s) mod canvas_width"
      using ih pos(1) by simp
    also have "\<dots> = (snake_x s + snake_dx s + int k * snake_dx s) mod canvas_width"
      by (rule mod_add_left_eq)
    also have "snake_x s + snake_dx s + int k * snake_dx s = snake_x s + int (Suc k) * snake_dx s"
      by (simp add: algebra_simps)
    finally show ?thesis .
  qed
  have y: "snake_y ((tick rnd ^^ k) ?a) = (snake_y s + int (Suc k) * snake_dy s) mod canvas_height"
  proof -
    have "snake_y ((tick rnd ^^ k) ?a)
            = ((snake_y s + snake_dy s) mod canvas_height + int k * snake_dy s) mod canvas_height"
      using ih pos(2) by simp
    also have "\<dots> = (snake_y s + snake_dy s + int k * snake_dy s) mod canvas_height"
      by (rule mod_add_left_eq)
    also have "snake_y s + snake_dy s + int k * snake_dy s = snake_y s + int (Suc k) * snake_dy s"
      by (simp add: algebra_simps)
    finally show ?thesis .
  qed
  have n: "int (length (snake_cells ((tick rnd ^^ k) ?a)))
             = min (int (length (snake_cells s)) + int (Suc k)) (snake_maxCells s)"
  proof -
    have "int (length (snake_cells ((tick rnd ^^ k) ?a)))
            = min (min (int (length (snake_cells s)) + 1) (snake_maxCells s) + int k) (snake_maxCells s)"
      using ih cel(1) by simp
    then show ?thesis
      by (simp add: min_def)
  qed
  have h: "hd (snake_cells ((tick rnd ^^ k) ?a))
             = (snake_x ((tick rnd ^^ k) ?a), snake_y ((tick rnd ^^ k) ?a))"
  proof (cases "k = 0")
    case True
    with cel(2) show ?thesis
      by simp
  next
    case False
    with ih show ?thesis
      by simp
  qed
  from x y n h show ?case
    unfolding pow by simp
qed

text \<open>
  C2, as the code has it. The snake starts with no cells: \<^verbatim>\<open>cells: []\<close> in the literal
  and in \<^verbatim>\<open>resetGame()\<close>, and the first tick adds the first cell. From the initial
  configuration, after \<open>k\<close> ticks that meet neither the apple nor the snake itself
  (and no key in between), the snake has \<open>min(k, maxCells)\<close> cells, and the head is
  the initial head position plus \<open>k\<close> steps of the velocity, each axis modulo the
  extent of the board; for \<open>k > 0\<close> that head is the first cell.
\<close>

theorem straight_run:
  assumes "initial_configuration s" and "axis_aligned s" and "quiet_run rnd k s"
  shows "int (length (snake_cells ((tick rnd ^^ k) s))) = min (int k) (snake_maxCells s)
       \<and> snake_x ((tick rnd ^^ k) s) = (snake_x s + int k * snake_dx s) mod canvas_width
       \<and> snake_y ((tick rnd ^^ k) s) = (snake_y s + int k * snake_dy s) mod canvas_height
       \<and> (0 < k \<longrightarrow> hd (snake_cells ((tick rnd ^^ k) s))
                     = (snake_x ((tick rnd ^^ k) s), snake_y ((tick rnd ^^ k) s)))"
proof -
  from assms(1) have c: "snake_x s = 160" "snake_y s = 160" "snake_cells s = []" "snake_maxCells s = 4"
    by (simp_all add: initial_configuration_def)
  have gx: "on_grid canvas_width (snake_x s)" and gy: "on_grid canvas_height (snake_y s)"
    by (simp_all add: c on_grid_def canvas_width_def canvas_height_def grid_def)
  have le: "int (length (snake_cells s)) \<le> snake_maxCells s" and one: "1 \<le> snake_maxCells s"
    by (simp_all add: c)
  from quiet_run_straight [OF assms(3,2) gx gy le one] show ?thesis
    by (simp add: c)
qed

theorem straight_run_witness:
  "initial_configuration initial_game \<and> axis_aligned initial_game
   \<and> quiet_run rnd_half 16 initial_game
   \<and> length (snake_cells ((tick rnd_half ^^ 16) initial_game)) = 4
   \<and> snake_x ((tick rnd_half ^^ 16) initial_game) = 16
   \<and> snake_y ((tick rnd_half ^^ 16) initial_game) = 160
   \<and> hd (snake_cells ((tick rnd_half ^^ 16) initial_game)) = (16, 160)"
proof -
  have a: "initial_configuration initial_game"
    by (simp add: initial_configuration_def initial_game_def)
  have b: "axis_aligned initial_game"
    by (simp add: axis_aligned_def initial_game_def grid_def)
  have c: "quiet_run rnd_half 16 initial_game"
    by code_simp
  have d: "snake_x initial_game = 160" "snake_y initial_game = 160" "snake_dx initial_game = 16"
    "snake_dy initial_game = 0" "snake_maxCells initial_game = 4"
    by (simp_all add: initial_game_def grid_def)
  from straight_run [OF a b c] have
    "int (length (snake_cells ((tick rnd_half ^^ 16) initial_game))) = 4
     \<and> snake_x ((tick rnd_half ^^ 16) initial_game) = 16
     \<and> snake_y ((tick rnd_half ^^ 16) initial_game) = 160
     \<and> hd (snake_cells ((tick rnd_half ^^ 16) initial_game))
         = (snake_x ((tick rnd_half ^^ 16) initial_game), snake_y ((tick rnd_half ^^ 16) initial_game))"
    by (simp add: d canvas_width_def canvas_height_def)
  with a b c show ?thesis
    by simp
qed

text \<open>
  The count \<open>min(k + 1, initial length)\<close> does not hold: before the first tick the
  snake has no cell, and after one quiet tick it has one cell.
\<close>

theorem cells_after_first_tick:
  "quiet_run rnd_half 1 initial_game
   \<and> int (length (snake_cells ((tick rnd_half ^^ 1) initial_game)))
       \<noteq> min (1 + 1) (snake_maxCells initial_game)
   \<and> int (length (snake_cells ((tick rnd_half ^^ 0) initial_game)))
       \<noteq> min (0 + 1) (snake_maxCells initial_game)"
  by code_simp

text \<open>
  The product is the rounded one. At the doubles nearest to 0.6 and to 0.48 the exact
  products are just below 15 and 12, the doubles nearest to them are 15 and 12, and so
  are the indices. The largest double below 1 gives 24.
\<close>

lemma double_product_rounds:
  "floor_double (mul_double (5404319552844595, - 53) 25) = 15"
  "floor_double (mul_double (8646911284551352, - 54) 25) = 12"
  "floor_double (mul_double (5224175567749775, - 53) 25) = 14"
  "floor_double (mul_double (9007199254740991, - 53) 25) = 24"
  "unit_double (9007199254740991, - 53)"
  by code_simp+

text \<open>
  Every double \<open>m * 2^-k\<close> in \<open>[0, 1)\<close> gives an index from 0 to 24. The exact
  product \<open>25 * m\<close> has at most 58 binary digits, so at most 5 of them are rounded away
  and rounding adds at most 16 to it, while \<open>25 * m\<close> is at least 25 below
  \<open>25 * 2^k\<close>: the rounded product is still below 25.
\<close>

lemma bits_le: "n < 2 ^ b \<Longrightarrow> bits n \<le> b"
proof (induction b arbitrary: n)
  case 0
  then show ?case by (simp add: bits.simps)
next
  case (Suc b)
  show ?case
  proof (cases "n \<le> 0")
    case True
    then show ?thesis by (simp add: bits.simps)
  next
    case False
    from Suc.prems have "n div 2 < 2 ^ b"
      by simp
    then have "bits (n div 2) \<le> b"
      by (rule Suc.IH)
    with False show ?thesis
      by (subst bits.simps) simp
  qed
qed

lemma half_up: "t \<le> 2 * r \<Longrightarrow> 2 * (p - r + t) \<le> 2 * p + (t::int)"
  by simp

lemma half_down: "x \<le> p \<Longrightarrow> 0 \<le> t \<Longrightarrow> 2 * x \<le> 2 * p + (t::int)"
  by simp

lemma div_less_mult:
  fixes a b c :: int
  assumes "0 < b" and "a < c * b"
  shows "a div b < c"
proof (rule ccontr)
  assume "\<not> a div b < c"
  then have "c \<le> a div b"
    by simp
  with assms(1) have "c * b \<le> a div b * b"
    by (simp add: mult_right_mono)
  moreover have "a div b * b + a mod b = a"
    by (rule div_mult_mod_eq)
  moreover from assms(1) have "0 \<le> a mod b"
    by simp
  ultimately have "c * b \<le> a"
    by linarith
  with assms(2) show False
    by simp
qed

lemma round_half_even_bound:
  assumes "0 \<le> p"
  shows "0 \<le> round_half_even p s" and "2 * (round_half_even p s * 2 ^ s) \<le> 2 * p + 2 ^ s"
proof -
  let ?q = "p div 2 ^ s" and ?r = "p mod 2 ^ s"
  have p: "?q * 2 ^ s + ?r = p"
    by (rule div_mult_mod_eq)
  have r: "0 \<le> ?r" "?r < 2 ^ s"
    by simp_all
  from assms have q: "0 \<le> ?q"
    by (simp add: pos_imp_zdiv_nonneg_iff)
  from q show "0 \<le> round_half_even p s"
    by (simp add: round_half_even_def Let_def)
  show "2 * (round_half_even p s * 2 ^ s) \<le> 2 * p + 2 ^ s"
  proof (cases "2 * ?r > 2 ^ s \<or> (2 * ?r = 2 ^ s \<and> odd ?q)")
    case True
    then have up: "round_half_even p s = ?q + 1"
      by (simp add: round_half_even_def Let_def)
    from True have half: "2 ^ s \<le> 2 * ?r"
      by auto
    have a: "(?q + 1) * 2 ^ s = ?q * 2 ^ s + 2 ^ s"
      by (simp add: distrib_right)
    from p have b: "?q * 2 ^ s = p - ?r"
      by linarith
    from half have "2 * (p - ?r + 2 ^ s) \<le> 2 * p + 2 ^ s"
      by (rule half_up)
    then show ?thesis
      unfolding up a b .
  next
    case False
    then have down: "round_half_even p s = ?q"
      by (simp add: round_half_even_def Let_def)
    from r(1) have "?q * 2 ^ s \<le> ?q * 2 ^ s + ?r"
      by simp
    also have "\<dots> = p"
      by (rule p)
    finally have "2 * (?q * 2 ^ s) \<le> 2 * p + 2 ^ s"
      by (rule half_down) simp
    then show ?thesis
      by (simp only: down)
  qed
qed

lemma floor_unit_product:
  assumes "unit_double d"
  shows "0 \<le> floor_double (mul_double d 25)" and "floor_double (mul_double d 25) < 25"
proof -
  obtain m e where d: "d = (m, e)"
    by (cases d)
  define k where "k = nat (- e)"
  define p where "p = m * 25"
  define s where "s = bits \<bar>p\<bar> - 53"
  define q where "q = round_half_even \<bar>p\<bar> s"
  from assms d have m: "0 \<le> m" "m < 2 ^ 53" and e: "e < 0" "e = - int k" and mk: "m < 2 ^ k"
    by (simp_all add: unit_double_def k_def)
  from m have p0: "0 \<le> p" "\<bar>p\<bar> = p" and p58: "p < 2 ^ 58"
    by (simp_all add: p_def)
  from p58 p0 have "bits \<bar>p\<bar> \<le> 58"
    by (simp add: bits_le)
  then have s5: "s \<le> 5"
    by (simp add: s_def)
  then have "(2::int) ^ s \<le> 2 ^ 5"
    by (intro power_increasing) simp_all
  then have s32: "(2::int) ^ s \<le> 32"
    by simp
  have q0: "0 \<le> q" and qb: "2 * (q * 2 ^ s) \<le> 2 * p + 2 ^ s"
    using round_half_even_bound [OF p0(1), of s] by (simp_all add: q_def p0)
  have prod: "mul_double d 25 = (q, e + int s)"
    unfolding mul_double_def Let_def d q_def s_def p_def using m(1) by simp
  from mk have "m + 1 \<le> 2 ^ k"
    by simp
  then have "25 * (m + 1) \<le> 25 * 2 ^ k"
    by simp
  then have "2 * p + 32 < 50 * 2 ^ k"
    by (simp add: p_def)
  with qb s32 have lt: "q * 2 ^ s < 25 * 2 ^ k"
    by simp
  show "0 \<le> floor_double (mul_double d 25)"
    using q0 by (simp add: prod floor_double_def pos_imp_zdiv_nonneg_iff)
  show "floor_double (mul_double d 25) < 25"
  proof (cases "0 \<le> e + int s")
    case True
    then have ks: "k \<le> s"
      using e by simp
    then have "(2::int) ^ s = 2 ^ (s - k) * 2 ^ k"
      by (simp add: power_add [symmetric])
    with lt have "(q * 2 ^ (s - k)) * 2 ^ k < 25 * 2 ^ k"
      by (simp add: mult.assoc)
    then have "q * 2 ^ (s - k) < 25"
      by simp
    moreover from True e have "nat (e + int s) = s - k"
      by simp
    ultimately show ?thesis
      using True by (simp add: prod floor_double_def)
  next
    case False
    then have sk: "s < k"
      using e by simp
    then have "(2::int) ^ k = 2 ^ (k - s) * 2 ^ s"
      by (simp add: power_add [symmetric])
    with lt have "q * 2 ^ s < (25 * 2 ^ (k - s)) * 2 ^ s"
      by (simp add: mult.assoc)
    then have "q < 25 * 2 ^ (k - s)"
      by simp
    then have "q div 2 ^ (k - s) < 25"
      by (intro div_less_mult) simp_all
    moreover from False e sk have "nat (- (e + int s)) = k - s"
      by simp
    ultimately show ?thesis
      using False by (simp add: prod floor_double_def)
  qed
qed

lemma eatApple_cells [simp]: "snake_cells (eatApple rnd s) = snake_cells s"
  by (simp add: eatApple_eq)

text \<open>
  C3, as the code has it. The apple test runs for every cell of the snake, head first,
  and the collision test follows it. When the head's new cell is on the apple, the cells
  of the snake are pairwise distinct on this tick, and the place the apple is moved to is
  not under a cell behind the head, then the tick adds exactly 10 to the score and
  exactly 1 to \<^verbatim>\<open>maxCells\<close>, and it leaves the apple at \<open>(i * grid, j * grid)\<close> with
  \<open>0 \<le> i, j < 25\<close>, for all doubles in \<open>[0, 1)\<close> that \<^verbatim>\<open>Math.random()\<close> may return.
\<close>

theorem eat_apple_tick:
  assumes "\<forall>n. unit_double (rnd n)"
    and "head_on_apple s" and "\<not> self_hit s" and "\<not> apple_lands_on_body rnd s"
  shows "score (tick rnd s) = score s + 10
       \<and> snake_maxCells (tick rnd s) = snake_maxCells s + 1
       \<and> (\<exists>i j. 0 \<le> i \<and> i < 25 \<and> 0 \<le> j \<and> j < 25
                \<and> apple_x (tick rnd s) = i * grid \<and> apple_y (tick rnd s) = j * grid)"
proof -
  let ?a = "advance s"
  let ?e = "eatApple rnd ?a"
  from assms(2) obtain cell rest where cells: "snake_cells ?a = cell # rest"
    and head: "fst cell = apple_x ?a \<and> snd cell = apple_y ?a"
    by (auto simp add: head_on_apple_def split: list.splits)
  from assms(3) have d: "distinct (snake_cells ?e)"
    by (simp add: self_hit_def)
  have "collide rnd cell (0 + 1) ?e = ?e"
  proof (rule collide_no_match)
    fix j
    assume "0 + 1 \<le> j" "j < length (snake_cells ?e)"
    with d cells show "snake_cells ?e ! j \<noteq> cell"
      by (auto simp add: nth_Cons' split: if_splits)
  qed
  moreover have "forEach_cells rnd rest (0 + 1) ?e = ?e"
  proof (rule forEach_cells_quiet [OF d])
    show "rest = drop (0 + 1) (snake_cells ?e)"
      by (simp add: cells)
    from assms(4) show "\<not> list_ex (\<lambda>cell. fst cell = apple_x ?e \<and> snd cell = apple_y ?e) rest"
      by (simp add: apple_lands_on_body_def cells)
  qed
  ultimately have t: "tick rnd s = ?e"
    using head by (simp add: tick_def Let_def cells)
  from assms(1) have r: "unit_double (rnd (draws s))" "unit_double (rnd (Suc (draws s)))"
    by simp_all
  have ax: "apple_x ?e = floor_double (mul_double (rnd (draws s)) 25) * grid"
    and ay: "apple_y ?e = floor_double (mul_double (rnd (Suc (draws s))) 25) * grid"
    by (simp_all add: eatApple_eq)
  from floor_unit_product [OF r(1)] floor_unit_product [OF r(2)] ax ay
  have "\<exists>i j. 0 \<le> i \<and> i < 25 \<and> 0 \<le> j \<and> j < 25
                \<and> apple_x ?e = i * grid \<and> apple_y ?e = j * grid"
    by blast
  then show ?thesis
    unfolding t by (simp add: eatApple_eq)
qed

theorem eat_apple_tick_witness:
  "(\<forall>n. unit_double (rnd_half n))
   \<and> head_on_apple apple_ahead \<and> \<not> self_hit apple_ahead
   \<and> \<not> apple_lands_on_body rnd_half apple_ahead
   \<and> score apple_ahead = 0 \<and> score (tick rnd_half apple_ahead) = 10
   \<and> snake_maxCells apple_ahead = 4 \<and> snake_maxCells (tick rnd_half apple_ahead) = 5
   \<and> (\<exists>i j. 0 \<le> i \<and> i < 25 \<and> 0 \<le> j \<and> j < 25
                \<and> apple_x (tick rnd_half apple_ahead) = i * grid
                \<and> apple_y (tick rnd_half apple_ahead) = j * grid)"
proof -
  have a: "\<forall>n. unit_double (rnd_half n)"
    by (simp add: rnd_half_def unit_double_def)
  have b: "head_on_apple apple_ahead"
    by code_simp
  have c: "\<not> self_hit apple_ahead"
    by code_simp
  have d: "\<not> apple_lands_on_body rnd_half apple_ahead"
    by code_simp
  have e: "score apple_ahead = 0" "snake_maxCells apple_ahead = 4"
    by code_simp+
  from eat_apple_tick [OF a b c d] a b c d e show ?thesis
    by simp
qed

text \<open>
  Without the last condition the score can grow by more than 10 in one tick. After a
  restart that puts the apple two cells ahead of the snake, the second tick puts the head
  on the apple; the apple is moved under the second cell of the snake and is eaten again
  when the walk reaches that cell: 20 points and two more cells in one tick.
\<close>

theorem eat_apple_twice:
  "head_on_apple apple_ahead \<and> \<not> self_hit apple_ahead
   \<and> unit_double (rnd_under_body 2) \<and> unit_double (rnd_under_body 3)
   \<and> score (tick rnd_under_body apple_ahead) = score apple_ahead + 20
   \<and> snake_maxCells (tick rnd_under_body apple_ahead) = snake_maxCells apple_ahead + 2"
  by code_simp

text \<open>
  A tick on which the rounding decides. The head moves onto the apple at
  \<open>(176, 176)\<close>; the next random number is the double nearest to 0.48, whose product
  with 25 rounds to 12 (the exact product is below 12), so the apple is moved to
  \<open>(192, 176)\<close>, under the second cell of the snake, and is eaten a second time.
\<close>

lemma rounded_product_moves_apple:
  "snake_cells apple_on_the_left = [(192, 176), (208, 176), (208, 160), (192, 160)]
   \<and> apple_x apple_on_the_left = 176 \<and> apple_y apple_on_the_left = 176
   \<and> head_on_apple apple_on_the_left \<and> \<not> self_hit apple_on_the_left
   \<and> apple_lands_on_body rnd_rounded apple_on_the_left
   \<and> apple_x (eatApple rnd_rounded (advance apple_on_the_left)) = 192
   \<and> apple_y (eatApple rnd_rounded (advance apple_on_the_left)) = 176
   \<and> score (tick rnd_rounded apple_on_the_left) = score apple_on_the_left + 20
   \<and> snake_maxCells (tick rnd_rounded apple_on_the_left) = snake_maxCells apple_on_the_left + 2"
  by code_simp

text \<open>
  C1. The walk over the cells does not stop at a reset. Four ticks to the right, then Up
  and Left between two ticks, turn the snake back into itself. On the next tick the head
  meets the third cell and the game is reset; the walk goes on over the old array, its
  second cell is where the reset has just put the apple, and the apple is eaten: the
  tick ends with no cells, but with the score 10 and \<^verbatim>\<open>maxCells\<close> 5. The same reset
  through the restart key leaves the score 0 and \<^verbatim>\<open>maxCells\<close> 4.
\<close>

theorem collision_tick_scores:
  "self_hit (run rnd_stale_cell (reversing_keys @ replicate 5 Frame) initial_game)
   \<and> snake_cells (run rnd_stale_cell (reversing_keys @ replicate 6 Frame) initial_game) = []
   \<and> score (run rnd_stale_cell (reversing_keys @ replicate 6 Frame) initial_game) = 10
   \<and> snake_maxCells (run rnd_stale_cell (reversing_keys @ replicate 6 Frame) initial_game) = 5
   \<and> draws (run rnd_stale_cell (reversing_keys @ replicate 6 Frame) initial_game) = 4
   \<and> score (handleKeyDown rnd_stale_cell restart_key
        (run rnd_stale_cell (reversing_keys @ replicate 5 Frame) initial_game)) = 0
   \<and> snake_maxCells (handleKeyDown rnd_stale_cell restart_key
        (run rnd_stale_cell (reversing_keys @ replicate 5 Frame) initial_game)) = 4"
  by code_simp

end
